theory Spec2Isabelle
  imports Main "HOL-Library.Sublist"
begin

section \<open>Python values used by the model\<close>

text \<open>
  A Python \<open>str\<close> is modelled as a \<open>string\<close>, one \<open>char\<close> per character. The
  characters the program inspects (the closing bracket, the ampersand, the angle brackets
  and the quotes) are ASCII.
  Exceptions are values of \<open>error\<close>; a function that can raise returns \<open>error + 'a\<close>.
\<close>

datatype error = ValueError | TypeError

abbreviation NL :: string where "NL \<equiv> [CHR 0x0A]"
abbreviation TAB :: string where "TAB \<equiv> [CHR 0x09]"
abbreviation DQ :: string where "DQ \<equiv> [CHR 0x22]"
abbreviation SQ :: char where "SQ \<equiv> CHR 0x27"

text \<open>\<open>s.index(c)\<close>: the position of the first \<open>c\<close>, or \<open>ValueError\<close>.\<close>

fun str_index :: "string \<Rightarrow> char \<Rightarrow> error + nat" where
  "str_index [] c = Inl ValueError"
| "str_index (x # xs) c =
     (if x = c then Inr 0
      else (case str_index xs c of Inl e \<Rightarrow> Inl e | Inr i \<Rightarrow> Inr (Suc i)))"

text \<open>\<open>s.replace(c, r)\<close> for a one-character pattern \<open>c\<close>.\<close>

fun str_replace :: "char \<Rightarrow> string \<Rightarrow> string \<Rightarrow> string" where
  "str_replace c r [] = []"
| "str_replace c r (x # xs) = (if x = c then r @ str_replace c r xs else x # str_replace c r xs)"

text \<open>
  \<open>html.escape(s)\<close> of the standard library, with its default \<open>quote=True\<close>: five
  replacements in sequence, the ampersand first.
\<close>

definition html_escape :: "string \<Rightarrow> string" where
  "html_escape s =
     (let s = str_replace CHR ''&'' ''&amp;'' s;
          s = str_replace CHR ''<'' ''&lt;'' s;
          s = str_replace CHR ''>'' ''&gt;'' s;
          s = str_replace CHR 0x22 ''&quot;'' s;
          s = str_replace SQ ''&#x27;'' s
      in s)"

section \<open>Mail\<close>

record mail =
  mail_subject :: string
  mail_author :: string
  mail_url :: string

text \<open>
  \<open>Mail.__sanitize_subject\<close>: the slice \<open>subject[subject.index(']')+2:]\<close>; the bare
  \<open>except\<close> turns the \<open>ValueError\<close> of \<open>index\<close> into the unchanged subject.
\<close>

definition sanitize_subject :: "string \<Rightarrow> string" where
  "sanitize_subject subject =
     (case str_index subject CHR '']'' of
        Inr i \<Rightarrow> drop (i + 2) subject
      | Inl e \<Rightarrow> subject)"

definition Mail :: "string \<Rightarrow> string \<Rightarrow> string \<Rightarrow> mail" where
  "Mail subject author url =
     \<lparr>mail_subject = sanitize_subject subject, mail_author = author, mail_url = url\<rparr>"

text \<open>\<open>Mail.__eq__\<close>: equality of the urls only.\<close>

definition Mail_eq :: "mail \<Rightarrow> mail \<Rightarrow> bool" where
  "Mail_eq self other = (mail_url self = mail_url other)"

text \<open>\<open>email in emails\<close>: some element of the list is \<open>==\<close> to \<open>email\<close>.\<close>

fun list_contains :: "mail list \<Rightarrow> mail \<Rightarrow> bool" where
  "list_contains [] email = False"
| "list_contains (el # els) email = (if Mail_eq el email then True else list_contains els email)"

section \<open>Threads\<close>

text \<open>
  \<open>self.thread\<close> is a \<open>dict\<close> from subject to list of mails. A Python \<open>dict\<close> keeps its
  keys in insertion order and \<open>__str__\<close> and \<open>html\<close> iterate over it, so it is an
  association list in insertion order. \<open>k in d\<close> and \<open>d[k]\<close> are \<open>map_of\<close>;
  \<open>d[k] = v\<close> is \<open>dict_set\<close>: an existing key keeps its place, a new key goes last.
\<close>

record threads =
  thread :: "(string \<times> mail list) list"

fun dict_set :: "('k \<times> 'v) list \<Rightarrow> 'k \<Rightarrow> 'v \<Rightarrow> ('k \<times> 'v) list" where
  "dict_set [] k v = [(k, v)]"
| "dict_set ((k', v') # d) k v = (if k' = k then (k, v) # d else (k', v') # dict_set d k v)"

definition Threads :: threads where
  "Threads = \<lparr>thread = []\<rparr>"

text \<open>
  \<open>Threads.append\<close> returns its boolean and the collection after the call. In the
  branch of a new subject the source stores the empty list under the key and then appends
  to that same list object; the model stores the list again after the append.
\<close>

definition Threads_append :: "mail \<Rightarrow> threads \<Rightarrow> bool \<times> threads" where
  "Threads_append email self =
     (case map_of (thread self) (mail_subject email) of
        Some emails \<Rightarrow>
          if list_contains emails email then (False, self)
          else (True, self\<lparr>thread :=
                  dict_set (thread self) (mail_subject email) (emails @ [email])\<rparr>)
      | None \<Rightarrow>
          (let emails = [];
               d = dict_set (thread self) (mail_subject email) emails
           in (True, self\<lparr>thread := dict_set d (mail_subject email) (emails @ [email])\<rparr>)))"

definition count_threads :: "threads \<Rightarrow> nat" where
  "count_threads self = length (thread self)"

definition count_mails :: "threads \<Rightarrow> nat" where
  "count_mails self = foldl (\<lambda>total (k, v). total + length v) 0 (thread self)"

text \<open>A run of appends on a collection, each result discarded as a caller may do.\<close>

definition appends :: "mail list \<Rightarrow> threads \<Rightarrow> threads" where
  "appends emails self = foldl (\<lambda>t email. snd (Threads_append email t)) self emails"

text \<open>\<open>Threads.__str__\<close>: both loops run over a reversed copy and extend \<open>s\<close>.\<close>

definition mail_line :: "mail \<Rightarrow> string" where
  "mail_line el = TAB @ mail_author el @ '' - <'' @ mail_url el @ ''>'' @ NL"

definition Threads_str :: "threads \<Rightarrow> string" where
  "Threads_str self =
     foldl (\<lambda>s (k, v).
         (let s = s @ k @ '':'' @ NL;
              s = foldl (\<lambda>s el. s @ mail_line el) s (rev v)
          in s @ NL))
       [] (rev (thread self))"

text \<open>
  The three \<open>html\<close> methods import \<open>emojize\<close> inside a \<open>try\<close>; the library may be
  absent. The capability is a parameter: \<open>None\<close> is the \<open>ImportError\<close> branch.
\<close>

definition point_right :: "(string \<Rightarrow> string) option \<Rightarrow> string" where
  "point_right emojize =
     (case emojize of Some f \<Rightarrow> f '':point_right:'' | None \<Rightarrow> ''-'')"

text \<open>
  \<open>Threads.html\<close>. \<open>capitalize\<close> is \<open>vargram_bot.util.capitalize_no_sym\<close>, which is not
  among the sources: it is a parameter.
\<close>

definition mail_anchor :: "mail \<Rightarrow> string" where
  "mail_anchor el =
     ''    <a href='' @ DQ @ mail_url el @ DQ @ ''>'' @ html_escape (mail_author el) @ ''</a>'' @ NL"

definition Threads_html ::
  "(string \<Rightarrow> string) option \<Rightarrow> (string \<Rightarrow> string) \<Rightarrow> threads \<Rightarrow> string" where
  "Threads_html emojize capitalize self =
     (let dash = point_right emojize in
      foldl (\<lambda>s (k, v).
          (let s = s @ dash @ '' <b>'' @ capitalize k @ ''</b>'' @ NL
           in foldl (\<lambda>s el. s @ mail_anchor el) s (rev v)))
        [] (rev (thread self)))"

section \<open>Post and Subreddit\<close>

text \<open>
  \<open>post_comments\<close> is the private attribute \<open>__comments\<close>; \<open>None\<close> is Python's
  \<open>None\<close>. The constructor takes the optional argument \<open>comments\<close> and never reads it.
\<close>

record post =
  post_title :: string
  post_url :: string
  post_self :: bool
  post_comments :: "string option"

definition Post :: "string \<Rightarrow> string \<Rightarrow> bool \<Rightarrow> string option \<Rightarrow> post" where
  "Post title url is_self comments =
     \<lparr>post_title = title, post_url = url, post_self = is_self,
      post_comments = (if is_self then None else Some url)\<rparr>"

text \<open>The property \<open>comments\<close>: \<open>self.__comments or None\<close>; the empty string is falsy.\<close>

definition comments :: "post \<Rightarrow> string option" where
  "comments self =
     (case post_comments self of
        None \<Rightarrow> None
      | Some c \<Rightarrow> if c = [] then None else Some c)"

text \<open>
  The fields of an article; its date is a \<open>time.struct_time\<close>, of which the renderers
  print the calendar fields.
\<close>

record struct_time =
  tm_year :: nat
  tm_mon :: nat
  tm_mday :: nat
  tm_hour :: nat
  tm_min :: nat
  tm_sec :: nat

record article =
  article_title :: string
  article_description :: string
  article_url :: string
  article_date :: struct_time

text \<open>
  \<open>sep.join(items)\<close> raises \<open>TypeError\<close> when an item is not a \<open>str\<close>. The items the
  program passes are strings, \<open>None\<close>, posts and articles.
\<close>

datatype pyval = PyStr string | PyNone | PyPost post | PyArticle article

fun str_join :: "string \<Rightarrow> pyval list \<Rightarrow> error + string" where
  "str_join sep [] = Inr []"
| "str_join sep (PyStr s # xs) =
     (case str_join sep xs of
        Inl e \<Rightarrow> Inl e
      | Inr r \<Rightarrow> Inr (if xs = [] then s else s @ sep @ r))"
| "str_join sep (x # xs) = Inl TypeError"

definition Post_repr :: "post \<Rightarrow> error + string" where
  "Post_repr self =
     (case str_join '', ''
             [PyStr (post_title self), PyStr (post_url self),
              (case comments self of None \<Rightarrow> PyNone | Some c \<Rightarrow> PyStr c)] of
        Inl e \<Rightarrow> Inl e
      | Inr j \<Rightarrow> Inr (''Post('' @ j @ '')''))"

definition Post_html :: "post \<Rightarrow> string" where
  "Post_html self =
     (let s = ''<a href='' @ DQ @ post_url self @ DQ @ ''>'' @ html_escape (post_title self)
                @ ''</a>''
      in case comments self of
           None \<Rightarrow> s
         | Some c \<Rightarrow>
             if c \<noteq> [] then s @ '' (<a href='' @ DQ @ c @ DQ @ ''>comments</a>)'' else s)"

record subreddit =
  subreddit_name :: string
  subreddit :: "post list"

definition Subreddit :: "string \<Rightarrow> subreddit" where
  "Subreddit name = \<lparr>subreddit_name = name, subreddit = []\<rparr>"

definition Subreddit_append :: "post \<Rightarrow> subreddit \<Rightarrow> subreddit" where
  "Subreddit_append p self = self\<lparr>subreddit := subreddit self @ [p]\<rparr>"

definition Subreddit_str :: "subreddit \<Rightarrow> error + string" where
  "Subreddit_str self = str_join NL (map PyPost (subreddit self))"

definition Subreddit_html :: "(string \<Rightarrow> string) option \<Rightarrow> subreddit \<Rightarrow> error + string" where
  "Subreddit_html emojize self =
     (let dash = point_right emojize in
      str_join NL (map (\<lambda>el. PyStr (dash @ '' '' @ Post_html el)) (subreddit self)))"

section \<open>Article and Feed\<close>

text \<open>
  \<open>time.strftime\<close> of the standard library is a parameter of the renderers. The clock
  glyph of \<open>Article.html\<close> is U+231A, written here as its three UTF-8 bytes.
\<close>

definition watch :: string where
  "watch = [CHR 0xE2, CHR 0x8C, CHR 0x9A]"

definition Article :: "string \<Rightarrow> string \<Rightarrow> string \<Rightarrow> struct_time \<Rightarrow> article" where
  "Article title description url date =
     \<lparr>article_title = title, article_description = description, article_url = url,
      article_date = date\<rparr>"

definition Article_html :: "(string \<Rightarrow> struct_time \<Rightarrow> string) \<Rightarrow> article \<Rightarrow> string" where
  "Article_html strftime self =
     ''<a href='' @ DQ @ article_url self @ DQ @ ''>'' @ article_title self @ ''</a>'' @ NL
       @ ''    '' @ watch @ '' '' @ strftime ''%d/%m/%y %H:%M'' (article_date self)"

record feed =
  feed_title :: string
  feed :: "article list"

definition Feed :: "string \<Rightarrow> feed" where
  "Feed title = \<lparr>feed_title = title, feed = []\<rparr>"

definition Feed_append :: "article \<Rightarrow> feed \<Rightarrow> feed" where
  "Feed_append a self = self\<lparr>feed := feed self @ [a]\<rparr>"

definition Feed_str :: "feed \<Rightarrow> error + string" where
  "Feed_str self = str_join NL (map PyArticle (feed self))"

definition Feed_html ::
  "(string \<Rightarrow> string) option \<Rightarrow> (string \<Rightarrow> struct_time \<Rightarrow> string) \<Rightarrow> feed \<Rightarrow> error + string" where
  "Feed_html emojize strftime self =
     (let dash = point_right emojize in
      str_join NL (map (\<lambda>el. PyStr (dash @ '' '' @ Article_html strftime el)) (feed self)))"

text \<open>
  A formatter for the directives the program uses, zero-padded to two digits as
  \<open>strftime\<close> prints in-range fields; it instantiates the parameter in the examples.
\<close>

definition two_digits :: "nat \<Rightarrow> string" where
  "two_digits n = [''0123456789'' ! ((n div 10) mod 10), ''0123456789'' ! (n mod 10)]"

definition directive :: "char \<Rightarrow> struct_time \<Rightarrow> string" where
  "directive c t =
     (if c = CHR ''d'' then two_digits (tm_mday t)
      else if c = CHR ''m'' then two_digits (tm_mon t)
      else if c = CHR ''y'' then two_digits (tm_year t mod 100)
      else if c = CHR ''H'' then two_digits (tm_hour t)
      else if c = CHR ''M'' then two_digits (tm_min t)
      else if c = CHR ''S'' then two_digits (tm_sec t)
      else [CHR ''%'', c])"

fun strftime_digits :: "string \<Rightarrow> struct_time \<Rightarrow> string" where
  "strftime_digits [] t = []"
| "strftime_digits [x] t = [x]"
| "strftime_digits (x # c # fmt) t =
     (if x = CHR ''%'' then directive c t @ strftime_digits fmt t
      else x # strftime_digits (c # fmt) t)"

section \<open>Functions used to state the theorems\<close>

text \<open>
  The entity \<open>html.escape\<close> writes for one character; the strings of a list with a
  separator between neighbours; and runs of appends on a subreddit and on a feed.
\<close>

definition escape_char :: "char \<Rightarrow> string" where
  "escape_char c =
     (if c = CHR ''&'' then ''&amp;''
      else if c = CHR ''<'' then ''&lt;''
      else if c = CHR ''>'' then ''&gt;''
      else if c = CHR 0x22 then ''&quot;''
      else if c = SQ then ''&#x27;''
      else [c])"

fun joined :: "string \<Rightarrow> string list \<Rightarrow> string" where
  "joined sep [] = []"
| "joined sep [x] = x"
| "joined sep (x # y # xs) = x @ sep @ joined sep (y # xs)"

definition Subreddit_appends :: "post list \<Rightarrow> subreddit \<Rightarrow> subreddit" where
  "Subreddit_appends ps self = foldl (\<lambda>s p. Subreddit_append p s) self ps"

definition Feed_appends :: "article list \<Rightarrow> feed \<Rightarrow> feed" where
  "Feed_appends as self = foldl (\<lambda>f a. Feed_append a f) self as"

section \<open>The example mails of the specification\<close>

text \<open>
  The three mails of the end-to-end scenario, the third with any author, and a fourth mail
  whose tag differs from the first's and whose sanitized subject is the same.
\<close>

definition msg1 :: mail where
  "msg1 = Mail ''[Dev] Build broke'' ''alice'' ''http://list/msg/1''"

definition msg2 :: mail where
  "msg2 = Mail ''Re: Build broke'' ''bob'' ''http://list/msg/2''"

definition msg3 :: "string \<Rightarrow> mail" where
  "msg3 author = Mail ''[Dev] Build broke'' author ''http://list/msg/1''"

definition msg4 :: mail where
  "msg4 = Mail ''[Ann] Build broke'' ''dave'' ''http://list/msg/4''"

text \<open>Two posts, a date and two articles for the examples.\<close>

definition post1 :: post where
  "post1 = Post ''first'' ''http://r/1'' True None"

definition post2 :: post where
  "post2 = Post ''second'' ''http://r/2'' False None"

definition date1 :: struct_time where
  "date1 = \<lparr>tm_year = 2017, tm_mon = 4, tm_mday = 9, tm_hour = 7, tm_min = 5, tm_sec = 30\<rparr>"

definition article1 :: article where
  "article1 = Article ''a<b&c'' ''one'' ''http://f/1'' date1"

definition article2 :: article where
  "article2 = Article ''second'' ''two'' ''http://f/2'' date1"

text \<open>A mail whose author has an ampersand and angle brackets.\<close>

definition msg5 :: mail where
  "msg5 = Mail ''[Dev] Review'' ''R&D <rd@list>'' ''http://list/msg/5''"

section \<open>Theorems\<close>

subsection \<open>The standard library\<close>

lemma str_index_absent: "c \<notin> set s \<Longrightarrow> str_index s c = Inl ValueError"
  by (induction s) auto

lemma str_index_first: "c \<notin> set pre \<Longrightarrow> str_index (pre @ c # post) c = Inr (length pre)"
  by (induction pre) auto

lemma str_index_takeWhile:
  "c \<in> set s \<Longrightarrow> str_index s c = Inr (length (takeWhile (\<lambda>x. x \<noteq> c) s))"
  by (induction s) auto

subsection \<open>The dictionary and the appends\<close>

lemma list_contains_iff: "list_contains es e \<longleftrightarrow> mail_url e \<in> mail_url ` set es"
  by (induction es) (auto simp: Mail_eq_def)

lemma map_of_dict_set: "map_of (dict_set d k v) = (map_of d)(k \<mapsto> v)"
  by (induction d) auto

lemma keys_dict_set:
  "map fst (dict_set d k v) = (if k \<in> fst ` set d then map fst d else map fst d @ [k])"
  by (induction d) force+

lemma dict_set_twice: "dict_set (dict_set d k v) k w = dict_set d k w"
  by (induction d) auto

lemma dict_set_new: "k \<notin> fst ` set d \<Longrightarrow> dict_set d k v = d @ [(k, v)]"
  by (induction d) auto

lemma map_of_None_keys: "map_of d k = None \<longleftrightarrow> k \<notin> fst ` set d"
  by (simp add: map_of_eq_None_iff)

lemma map_of_Some_keys: "map_of d k = Some v \<Longrightarrow> k \<in> fst ` set d"
  by (force dest: map_of_SomeD)

lemma appends_snoc: "appends (es @ [e]) t = snd (Threads_append e (appends es t))"
  by (simp add: appends_def)


lemma appends_step:
  fixes t t' :: threads and e :: mail and items :: "mail list"
  assumes dist: "distinct (map fst (thread t))"
    and keys: "fst ` set (thread t) = mail_subject ` set items"
    and grp: "\<And>k v. map_of (thread t) k = Some v \<Longrightarrow>
      distinct (map mail_url v) \<and>
      set v \<subseteq> {x \<in> set items. mail_subject x = k} \<and>
      mail_url ` set v = mail_url ` {x \<in> set items. mail_subject x = k}"
  defines "t' \<equiv> snd (Threads_append e t)"
  shows "distinct (map fst (thread t'))"
    and "fst ` set (thread t') = mail_subject ` set (items @ [e])"
    and "map_of (thread t') k = Some v \<Longrightarrow>
      distinct (map mail_url v) \<and>
      set v \<subseteq> {x \<in> set (items @ [e]). mail_subject x = k} \<and>
      mail_url ` set v = mail_url ` {x \<in> set (items @ [e]). mail_subject x = k}"
proof -
  let ?k = "mail_subject e"
  define es where "es = (case map_of (thread t) ?k of None \<Rightarrow> [] | Some es \<Rightarrow> es)"
  have es: "distinct (map mail_url es) \<and> set es \<subseteq> {x \<in> set items. mail_subject x = ?k} \<and>
      mail_url ` set es = mail_url ` {x \<in> set items. mail_subject x = ?k}"
  proof (cases "map_of (thread t) ?k")
    case None
    then have "?k \<notin> mail_subject ` set items"
      using keys by (simp add: map_of_None_keys)
    then have "{x \<in> set items. mail_subject x = ?k} = {}"
      by (auto simp: image_iff)
    then show ?thesis
      using None by (simp add: es_def)
  next
    case (Some a)
    from grp [OF Some] show ?thesis
      using Some by (simp add: es_def)
  qed
  have oth: "{x \<in> set (items @ [e]). mail_subject x = k'} = {x \<in> set items. mail_subject x = k'}"
    if "k' \<noteq> ?k" for k'
    using that by auto
  have same: "{x \<in> set (items @ [e]). mail_subject x = ?k}
      = insert e {x \<in> set items. mail_subject x = ?k}"
    by auto
  show "distinct (map fst (thread t'))"
    and "fst ` set (thread t') = mail_subject ` set (items @ [e])"
    and "map_of (thread t') k = Some v \<Longrightarrow>
      distinct (map mail_url v) \<and>
      set v \<subseteq> {x \<in> set (items @ [e]). mail_subject x = k} \<and>
      mail_url ` set v = mail_url ` {x \<in> set (items @ [e]). mail_subject x = k}"
  proof -
    consider (dup) "t' = t" "mail_url e \<in> mail_url ` set es" "?k \<in> fst ` set (thread t)"
      | (ins) "thread t' = dict_set (thread t) ?k (es @ [e])" "mail_url e \<notin> mail_url ` set es"
      unfolding t'_def es_def
      by (cases "map_of (thread t) ?k")
        (auto simp: Threads_append_def list_contains_iff dict_set_twice
          dest: map_of_Some_keys)
    then have "distinct (map fst (thread t')) \<and>
      fst ` set (thread t') = mail_subject ` set (items @ [e]) \<and>
      (map_of (thread t') k = Some v \<longrightarrow>
        distinct (map mail_url v) \<and>
        set v \<subseteq> {x \<in> set (items @ [e]). mail_subject x = k} \<and>
        mail_url ` set v = mail_url ` {x \<in> set (items @ [e]). mail_subject x = k})"
    proof cases
      case dup
      have in_items: "?k \<in> mail_subject ` set items"
        using dup(3) keys by simp
      have d2: "fst ` set (thread t) = mail_subject ` set (items @ [e])"
        using keys in_items by auto
      have img: "mail_url ` {x \<in> set (items @ [e]). mail_subject x = ?k}
          = mail_url ` {x \<in> set items. mail_subject x = ?k}"
        unfolding same using dup(2) es by auto
      have d3: "map_of (thread t) k = Some v \<longrightarrow>
        distinct (map mail_url v) \<and>
        set v \<subseteq> {x \<in> set (items @ [e]). mail_subject x = k} \<and>
        mail_url ` set v = mail_url ` {x \<in> set (items @ [e]). mail_subject x = k}"
      proof
        assume a: "map_of (thread t) k = Some v"
        show "distinct (map mail_url v) \<and>
          set v \<subseteq> {x \<in> set (items @ [e]). mail_subject x = k} \<and>
          mail_url ` set v = mail_url ` {x \<in> set (items @ [e]). mail_subject x = k}"
        proof (cases "k = ?k")
          case True
          from grp [OF a] show ?thesis
            unfolding True img by auto
        next
          case False
          from grp [OF a] show ?thesis
            unfolding oth [OF False] .
        qed
      qed
      show ?thesis
        unfolding dup(1) using dist d2 d3 by blast
    next
      case ins
      have d1: "distinct (map fst (thread t'))"
        unfolding ins(1) using dist by (simp add: keys_dict_set)
      have "set (map fst (thread t')) = insert ?k (set (map fst (thread t)))"
        unfolding ins(1) by (auto simp: keys_dict_set)
      then have d2: "fst ` set (thread t') = mail_subject ` set (items @ [e])"
        using keys by auto
      have d3: "map_of (thread t') k = Some v \<longrightarrow>
        distinct (map mail_url v) \<and>
        set v \<subseteq> {x \<in> set (items @ [e]). mail_subject x = k} \<and>
        mail_url ` set v = mail_url ` {x \<in> set (items @ [e]). mail_subject x = k}"
      proof
        assume a: "map_of (thread t') k = Some v"
        show "distinct (map mail_url v) \<and>
          set v \<subseteq> {x \<in> set (items @ [e]). mail_subject x = k} \<and>
          mail_url ` set v = mail_url ` {x \<in> set (items @ [e]). mail_subject x = k}"
        proof (cases "k = ?k")
          case True
          with a have v: "v = es @ [e]"
            by (simp add: ins(1) map_of_dict_set)
          show ?thesis
            unfolding v True same using es ins(2) by auto
        next
          case False
          with a have "map_of (thread t) k = Some v"
            by (simp add: ins(1) map_of_dict_set)
          from grp [OF this] show ?thesis
            unfolding oth [OF False] .
        qed
      qed
      from d1 d2 d3 show ?thesis by blast
    qed
    then show "distinct (map fst (thread t'))"
      and "fst ` set (thread t') = mail_subject ` set (items @ [e])"
      and "map_of (thread t') k = Some v \<Longrightarrow>
        distinct (map mail_url v) \<and>
        set v \<subseteq> {x \<in> set (items @ [e]). mail_subject x = k} \<and>
        mail_url ` set v = mail_url ` {x \<in> set (items @ [e]). mail_subject x = k}"
      by blast+
  qed
qed


lemma appends_invariant:
  "distinct (map fst (thread (appends items Threads))) \<and>
   fst ` set (thread (appends items Threads)) = mail_subject ` set items \<and>
   (\<forall>k v. map_of (thread (appends items Threads)) k = Some v \<longrightarrow>
      distinct (map mail_url v) \<and>
      set v \<subseteq> {x \<in> set items. mail_subject x = k} \<and>
      mail_url ` set v = mail_url ` {x \<in> set items. mail_subject x = k})"
proof (induction items rule: rev_induct)
  case Nil
  show ?case by (simp add: appends_def Threads_def)
next
  case (snoc e items)
  have dist: "distinct (map fst (thread (appends items Threads)))"
    using snoc by (rule conjunct1)
  have keys: "fst ` set (thread (appends items Threads)) = mail_subject ` set items"
    using snoc by (elim conjE)
  have grp: "distinct (map mail_url v) \<and>
      set v \<subseteq> {x \<in> set items. mail_subject x = k} \<and>
      mail_url ` set v = mail_url ` {x \<in> set items. mail_subject x = k}"
    if "map_of (thread (appends items Threads)) k = Some v" for k v
    using snoc [THEN conjunct2, THEN conjunct2, rule_format, OF that] .
  note step = appends_step [OF dist keys grp, of e]
  show ?case
    unfolding appends_snoc
    by (intro conjI allI impI step(1) step(2) step(3))
qed

lemma count_mails_sum_list:
  "count_mails t = sum_list (map (\<lambda>kv. length (snd kv)) (thread t))"
proof -
  have "foldl (\<lambda>total (k, v). total + length v) a d
      = a + sum_list (map (\<lambda>kv. length (snd kv)) d)" for a :: nat and d :: "(string \<times> mail list) list"
    by (induction d arbitrary: a) (auto simp: case_prod_beta)
  then show ?thesis
    by (simp add: count_mails_def)
qed

lemma sum_list_groups:
  "distinct (map fst d) \<Longrightarrow>
   sum_list (map (\<lambda>kv. length (snd kv)) d) = (\<Sum>k \<in> fst ` set d. length (the (map_of d k)))"
proof (induction d)
  case Nil
  show ?case by simp
next
  case (Cons p d)
  obtain k v where p: "p = (k, v)" by (cases p)
  from Cons.prems have notin: "k \<notin> fst ` set d" and dist: "distinct (map fst d)"
    by (auto simp: p)
  have "(\<Sum>k' \<in> fst ` set d. length (the (map_of (p # d) k')))
      = (\<Sum>k' \<in> fst ` set d. length (the (map_of d k')))"
    using notin by (intro sum.cong) (auto simp: p)
  then show ?case
    using notin Cons.IH [OF dist] by (simp add: p)
qed

lemma appends_distinct_keys: "distinct (map fst (thread (appends items Threads)))"
  by (rule appends_invariant [THEN conjunct1])

lemma appends_keys: "fst ` set (thread (appends items Threads)) = mail_subject ` set items"
  by (rule appends_invariant [THEN conjunct2, THEN conjunct1])

lemma appends_group:
  assumes "map_of (thread (appends items Threads)) k = Some v"
  shows "distinct (map mail_url v)"
    and "set v \<subseteq> {x \<in> set items. mail_subject x = k}"
    and "mail_url ` set v = mail_url ` {x \<in> set items. mail_subject x = k}"
proof -
  note g = appends_invariant [THEN conjunct2, THEN conjunct2, rule_format, OF assms]
  show "distinct (map mail_url v)"
    by (rule g [THEN conjunct1])
  show "set v \<subseteq> {x \<in> set items. mail_subject x = k}"
    by (rule g [THEN conjunct2, THEN conjunct1])
  show "mail_url ` set v = mail_url ` {x \<in> set items. mail_subject x = k}"
    by (rule g [THEN conjunct2, THEN conjunct2])
qed

lemma group_lookup:
  "(k, v) \<in> set (thread (appends items Threads)) \<Longrightarrow>
   map_of (thread (appends items Threads)) k = Some v"
  by (rule map_of_is_SomeI [OF appends_distinct_keys])

lemma group_exists:
  assumes "k \<in> fst ` set (thread (appends items Threads))"
  shows "\<exists>v. map_of (thread (appends items Threads)) k = Some v"
proof -
  from assms obtain p where p: "p \<in> set (thread (appends items Threads))" "k = fst p"
    by (rule imageE)
  then have "(k, snd p) \<in> set (thread (appends items Threads))"
    by simp
  then show ?thesis
    by (blast intro: group_lookup)
qed

lemma group_size:
  assumes "k \<in> fst ` set (thread (appends items Threads))"
  shows "length (the (map_of (thread (appends items Threads)) k))
    = card (mail_url ` {x \<in> set items. mail_subject x = k})"
proof -
  from group_exists [OF assms] obtain v
    where v: "map_of (thread (appends items Threads)) k = Some v" ..
  have "length v = card (set (map mail_url v))"
    using appends_group(1) [OF v] by (simp only: distinct_card length_map)
  also have "\<dots> = card (mail_url ` set v)"
    by (simp only: set_map)
  also have "\<dots> = card (mail_url ` {x \<in> set items. mail_subject x = k})"
    by (simp only: appends_group(3) [OF v])
  finally show ?thesis
    by (simp only: v option.sel)
qed


lemma duplicate_append:
  assumes x: "x \<in> set items" "mail_subject x = mail_subject e" "mail_url x = mail_url e"
  shows "Threads_append e (appends items Threads) = (False, appends items Threads)"
proof -
  have "mail_subject x \<in> mail_subject ` set items"
    using x(1) by (rule imageI)
  then have "mail_subject e \<in> fst ` set (thread (appends items Threads))"
    by (simp only: appends_keys x(2))
  from group_exists [OF this] obtain v
    where v: "map_of (thread (appends items Threads)) (mail_subject e) = Some v" ..
  have "x \<in> {y \<in> set items. mail_subject y = mail_subject e}"
    using x(1) x(2) by simp
  then have "mail_url x \<in> mail_url ` {y \<in> set items. mail_subject y = mail_subject e}"
    by (rule imageI)
  then have "mail_url e \<in> mail_url ` set v"
    by (simp only: appends_group(3) [OF v] x(3))
  then have "list_contains v e"
    by (simp only: list_contains_iff)
  then show ?thesis
    using v by (simp add: Threads_append_def)
qed

lemmas scenario_defs = msg1_def msg2_def msg3_def msg4_def Mail_def sanitize_subject_def appends_def
  Threads_def Threads_append_def Mail_eq_def

lemma scenario_state:
  "appends [msg1, msg2] Threads =
     \<lparr>thread =
        [(''Build broke'',
          [\<lparr>mail_subject = ''Build broke'', mail_author = ''alice'',
            mail_url = ''http://list/msg/1''\<rparr>]),
         (''Re: Build broke'',
          [\<lparr>mail_subject = ''Re: Build broke'', mail_author = ''bob'',
            mail_url = ''http://list/msg/2''\<rparr>])]\<rparr>"
  by (simp add: scenario_defs)

lemma scenario_third:
  "Threads_append (msg3 a) (appends [msg1, msg2] Threads) = (False, appends [msg1, msg2] Threads)"
  unfolding scenario_state by (simp add: msg3_def Mail_def sanitize_subject_def Threads_append_def Mail_eq_def)

subsection \<open>Escaping and rendering\<close>

lemma str_replace_append:
  "str_replace c r (xs @ ys) = str_replace c r xs @ str_replace c r ys"
  by (induction xs) auto

lemma html_escape_Nil: "html_escape [] = []"
  by (simp add: html_escape_def)

lemma html_escape_Cons: "html_escape (x # s) = escape_char x @ html_escape s"
  by (simp add: html_escape_def escape_char_def str_replace_append Let_def)

lemma html_escape_chars: "html_escape s = concat (map escape_char s)"
  by (induction s) (simp_all add: html_escape_Nil html_escape_Cons)

lemma html_escape_append: "html_escape (x @ y) = html_escape x @ html_escape y"
  by (simp add: html_escape_chars)

lemma html_escape_no_lt: "CHR ''<'' \<notin> set (html_escape s)"
  by (induction s) (simp_all add: html_escape_Nil html_escape_Cons escape_char_def)

lemma foldl_append_concat: "foldl (\<lambda>s x. s @ f x) s xs = s @ concat (map f xs)"
  by (induction xs arbitrary: s) auto

lemma Threads_str_blocks:
  "Threads_str t =
     concat (map (\<lambda>(k, v). k @ '':'' @ NL @ concat (map mail_line (rev v)) @ NL) (rev (thread t)))"
proof -
  have "(\<lambda>s (k, v). (let s = s @ k @ '':'' @ NL; s = foldl (\<lambda>s el. s @ mail_line el) s (rev v) in s @ NL))
      = (\<lambda>s kv. s @ (\<lambda>(k, v). k @ '':'' @ NL @ concat (map mail_line (rev v)) @ NL) kv)"
    by (intro ext) (simp add: case_prod_beta foldl_append_concat)
  then show ?thesis
    by (simp only: Threads_str_def foldl_append_concat append_Nil)
qed

lemma Threads_html_blocks:
  "Threads_html emo cap t =
     concat (map (\<lambda>(k, v). point_right emo @ '' <b>'' @ cap k @ ''</b>'' @ NL
                    @ concat (map mail_anchor (rev v))) (rev (thread t)))"
proof -
  have "(\<lambda>s (k, v). (let s = s @ point_right emo @ '' <b>'' @ cap k @ ''</b>'' @ NL
                     in foldl (\<lambda>s el. s @ mail_anchor el) s (rev v)))
      = (\<lambda>s kv. s @ (\<lambda>(k, v). point_right emo @ '' <b>'' @ cap k @ ''</b>'' @ NL
                    @ concat (map mail_anchor (rev v))) kv)"
    by (intro ext) (simp add: case_prod_beta foldl_append_concat)
  then show ?thesis
    by (simp only: Threads_html_def Let_def foldl_append_concat append_Nil)
qed

lemma sublist_concat_map: "x \<in> set xs \<Longrightarrow> sublist (f x) (concat (map f xs))"
proof -
  assume "x \<in> set xs"
  then obtain ys zs where "xs = ys @ x # zs"
    by (auto dest: split_list)
  then have "concat (map f xs) = concat (map f ys) @ f x @ concat (map f zs)"
    by simp
  then show ?thesis
    unfolding sublist_def by blast
qed

lemma sublist_mid: "sublist x y \<Longrightarrow> sublist x (a @ y @ b)"
  unfolding sublist_def by (metis append.assoc)

lemma three_appends:
  assumes "mail_subject B = mail_subject A" "mail_subject C = mail_subject A"
    and "distinct [mail_url A, mail_url B, mail_url C]"
  shows "appends [A, B, C] Threads = \<lparr>thread = [(mail_subject A, [A, B, C])]\<rparr>"
  using assms by (simp add: appends_def Threads_def Threads_append_def Mail_eq_def)

subsection \<open>Joining strings\<close>

lemma str_join_strings: "str_join sep (map PyStr xs) = Inr (joined sep xs)"
  by (induction sep xs rule: joined.induct) simp_all

lemma str_join_map: "str_join sep (map (\<lambda>x. PyStr (f x)) xs) = Inr (joined sep (map f xs))"
  using str_join_strings [of sep "map f xs"] by (simp add: comp_def)

lemma joined_Cons: "joined sep (x # xs) = (if xs = [] then x else x @ sep @ joined sep xs)"
  by (cases xs) simp_all

lemma joined_snoc: "joined sep (xs @ [x]) = (if xs = [] then x else joined sep xs @ sep @ x)"
  by (induction sep xs rule: joined.induct) simp_all

lemma sublist_joined: "x \<in> set xs \<Longrightarrow> sublist x (joined sep xs)"
proof (induction sep xs rule: joined.induct)
  case (1 sep)
  then show ?case by simp
next
  case (2 sep y)
  then show ?case by simp
next
  case (3 sep y z xs)
  show ?case
  proof (cases "x = y")
    case True
    have "sublist y ([] @ y @ (sep @ joined sep (z # xs)))"
      by (rule sublist_appendI)
    then show ?thesis
      using True by simp
  next
    case False
    with 3 have "sublist x (joined sep (z # xs))"
      by simp
    then have "sublist x ((y @ sep) @ joined sep (z # xs) @ [])"
      by (rule sublist_mid)
    then show ?thesis
      by simp
  qed
qed

lemma Subreddit_appends_posts: "subreddit (Subreddit_appends ps s) = subreddit s @ ps"
  unfolding Subreddit_appends_def
  by (induction ps arbitrary: s) (simp_all add: Subreddit_append_def)

lemma Feed_appends_articles: "feed (Feed_appends as f) = feed f @ as"
  unfolding Feed_appends_def
  by (induction as arbitrary: f) (simp_all add: Feed_append_def)

lemma str_join_non_str:
  "(\<forall>s. x \<noteq> PyStr s) \<Longrightarrow> str_join sep (xs @ x # ys) = Inl TypeError"
proof (induction xs)
  case Nil
  then show ?case by (cases x) simp_all
next
  case (Cons a xs)
  then show ?case by (cases a) simp_all
qed

lemmas render_defs = Subreddit_html_def Subreddit_appends_def Subreddit_append_def Subreddit_def
  Feed_html_def Feed_appends_def Feed_append_def Feed_def point_right_def Post_html_def Post_def
  comments_def Article_html_def Article_def html_escape_def

subsection \<open>The sanitizer\<close>

text \<open>
  C6. \<open>sanitize_subject\<close> is a total function from strings to strings (the model has no
  error result left: the only exception the body can raise is caught). A subject without
  \<open>]\<close> is returned unchanged; a subject \<open>pre ] post\<close> whose \<open>pre\<close> has no \<open>]\<close> gives
  \<open>post\<close> without its first character, that is the substring starting two characters after
  the first \<open>]\<close>, which may be empty; and \<open>[Group] Hello\<close> gives \<open>Hello\<close>.
\<close>

theorem sanitize_subject_spec:
  "(CHR '']'' \<notin> set s \<longrightarrow> sanitize_subject s = s) \<and>
   (CHR '']'' \<notin> set pre \<longrightarrow> sanitize_subject (pre @ CHR '']'' # post) = drop 1 post) \<and>
   (CHR '']'' \<in> set s \<longrightarrow>
      sanitize_subject s = drop (length (takeWhile (\<lambda>x. x \<noteq> CHR '']'') s) + 2) s) \<and>
   sanitize_subject ''[Group] Hello'' = ''Hello''"
proof (intro conjI impI)
  assume "CHR '']'' \<notin> set s"
  then show "sanitize_subject s = s"
    by (simp add: sanitize_subject_def str_index_absent)
next
  assume "CHR '']'' \<notin> set pre"
  then show "sanitize_subject (pre @ CHR '']'' # post) = drop 1 post"
    by (simp add: sanitize_subject_def str_index_first)
next
  assume "CHR '']'' \<in> set s"
  then show "sanitize_subject s = drop (length (takeWhile (\<lambda>x. x \<noteq> CHR '']'') s) + 2) s"
    by (simp add: sanitize_subject_def str_index_takeWhile)
next
  show "sanitize_subject ''[Group] Hello'' = ''Hello''"
    by (simp add: sanitize_subject_def)
qed

theorem sanitize_subject_spec_witness:
  "sanitize_subject ''Re: Build broke'' = ''Re: Build broke'' \<and>
   sanitize_subject ''[Dev] Build broke'' = ''Build broke'' \<and>
   sanitize_subject ''x]'' = []"
  using sanitize_subject_spec [of "''Re: Build broke''" "''[Dev''" "'' Build broke''"]
    sanitize_subject_spec [of "''x]''" "''x''" "[]"]
  by simp

subsection \<open>Appending to Threads\<close>

text \<open>
  C5. \<open>Threads.append\<close> returns false exactly when a mail with the same url is already
  stored under the mail's sanitized subject; then the collection is the one before the
  call. Otherwise it returns true, the subject's sequence is the old one (the empty one for
  a new subject) with the mail at its end, every other subject keeps its sequence, and the
  order of the keys is the old one, with the subject added last when it is new.
\<close>

theorem Threads_append_spec:
  "(\<not> fst (Threads_append e t) \<longleftrightarrow>
      (\<exists>es. map_of (thread t) (mail_subject e) = Some es \<and> mail_url e \<in> mail_url ` set es)) \<and>
   (\<not> fst (Threads_append e t) \<longrightarrow> snd (Threads_append e t) = t) \<and>
   (fst (Threads_append e t) \<longrightarrow>
      map_of (thread (snd (Threads_append e t))) (mail_subject e) =
        Some ((case map_of (thread t) (mail_subject e) of None \<Rightarrow> [] | Some es \<Rightarrow> es) @ [e]) \<and>
      (\<forall>k. k \<noteq> mail_subject e \<longrightarrow>
         map_of (thread (snd (Threads_append e t))) k = map_of (thread t) k) \<and>
      map fst (thread (snd (Threads_append e t))) =
        (if mail_subject e \<in> fst ` set (thread t) then map fst (thread t)
         else map fst (thread t) @ [mail_subject e]))"
  by (auto simp: Threads_append_def list_contains_iff map_of_dict_set keys_dict_set
      dict_set_twice map_of_None_keys Let_def dest: map_of_Some_keys split: option.splits)

theorem Threads_append_spec_witness:
  "Threads_append (msg3 ''carol'') (appends [msg1, msg2] Threads) = (False, appends [msg1, msg2] Threads) \<and>
   fst (Threads_append msg4 (appends [msg1, msg2] Threads)) \<and>
   map_of (thread (snd (Threads_append msg4 (appends [msg1, msg2] Threads)))) ''Build broke''
     = Some [msg1, msg4] \<and>
   map fst (thread (snd (Threads_append msg4 (appends [msg1, msg2] Threads))))
     = [''Build broke'', ''Re: Build broke'']"
proof -
  note dup = Threads_append_spec [of "msg3 ''carol''" "appends [msg1, msg2] Threads"]
  note ins = Threads_append_spec [of msg4 "appends [msg1, msg2] Threads"]
  have h1: "\<exists>es. map_of (thread (appends [msg1, msg2] Threads)) (mail_subject (msg3 ''carol'')) = Some es
      \<and> mail_url (msg3 ''carol'') \<in> mail_url ` set es"
    unfolding scenario_state by (simp add: msg3_def Mail_def sanitize_subject_def)
  from dup h1 have r1: "\<not> fst (Threads_append (msg3 ''carol'') (appends [msg1, msg2] Threads))"
    by blast
  with dup have r2: "snd (Threads_append (msg3 ''carol'') (appends [msg1, msg2] Threads))
      = appends [msg1, msg2] Threads"
    by blast
  have h2: "\<not> (\<exists>es. map_of (thread (appends [msg1, msg2] Threads)) (mail_subject msg4) = Some es
      \<and> mail_url msg4 \<in> mail_url ` set es)"
    unfolding scenario_state by (simp add: msg4_def Mail_def sanitize_subject_def)
  from ins h2 have r3: "fst (Threads_append msg4 (appends [msg1, msg2] Threads))"
    by blast
  have r4: "map_of (thread (snd (Threads_append msg4 (appends [msg1, msg2] Threads)))) ''Build broke''
     = Some [msg1, msg4]"
    unfolding scenario_state by (simp add: scenario_defs)
  have r5: "map fst (thread (snd (Threads_append msg4 (appends [msg1, msg2] Threads))))
     = [''Build broke'', ''Re: Build broke'']"
    unfolding scenario_state by (simp add: scenario_defs)
  from r1 r2 have "Threads_append (msg3 ''carol'') (appends [msg1, msg2] Threads)
      = (False, appends [msg1, msg2] Threads)"
    by (simp add: prod_eq_iff)
  with r3 r4 r5 show ?thesis
    by (simp only: simp_thms)
qed

subsection \<open>The deduplication invariant\<close>

text \<open>
  C4. After any sequence of appends to a fresh \<open>Threads\<close> (hence after every append of
  the sequence), each group holds mails of its own sanitized subject with pairwise
  different urls; \<open>count_mails\<close> is the sum, over the sanitized subjects appended, of the
  number of distinct urls appended under that subject; and appending a mail whose url was
  already appended under the same sanitized subject leaves \<open>count_mails\<close> as it was.
\<close>

theorem threads_dedup_invariant:
  "(\<forall>(k, v) \<in> set (thread (appends items Threads)).
      distinct (map mail_url v) \<and> (\<forall>el \<in> set v. mail_subject el = k)) \<and>
   count_mails (appends items Threads)
     = (\<Sum>k \<in> mail_subject ` set items. card (mail_url ` {x \<in> set items. mail_subject x = k})) \<and>
   ((\<exists>x \<in> set items. mail_subject x = mail_subject e \<and> mail_url x = mail_url e) \<longrightarrow>
      count_mails (snd (Threads_append e (appends items Threads)))
        = count_mails (appends items Threads))"
proof (intro conjI impI)
  show "\<forall>(k, v) \<in> set (thread (appends items Threads)).
      distinct (map mail_url v) \<and> (\<forall>el \<in> set v. mail_subject el = k)"
  proof (clarify, intro conjI ballI)
    fix k v
    assume "(k, v) \<in> set (thread (appends items Threads))"
    then have v: "map_of (thread (appends items Threads)) k = Some v"
      by (rule group_lookup)
    show "distinct (map mail_url v)"
      by (rule appends_group(1) [OF v])
    fix el assume "el \<in> set v"
    with appends_group(2) [OF v] have "el \<in> {x \<in> set items. mail_subject x = k}"
      by (rule subsetD)
    then show "mail_subject el = k" by simp
  qed
next
  have "count_mails (appends items Threads)
      = (\<Sum>k \<in> fst ` set (thread (appends items Threads)).
           length (the (map_of (thread (appends items Threads)) k)))"
    by (simp only: count_mails_sum_list sum_list_groups [OF appends_distinct_keys])
  also have "\<dots> = (\<Sum>k \<in> fst ` set (thread (appends items Threads)).
           card (mail_url ` {x \<in> set items. mail_subject x = k}))"
    by (rule sum.cong [OF refl]) (rule group_size)
  finally show "count_mails (appends items Threads)
     = (\<Sum>k \<in> mail_subject ` set items. card (mail_url ` {x \<in> set items. mail_subject x = k}))"
    by (simp only: appends_keys)
next
  assume "\<exists>x \<in> set items. mail_subject x = mail_subject e \<and> mail_url x = mail_url e"
  then obtain x where x: "x \<in> set items" "mail_subject x = mail_subject e" "mail_url x = mail_url e"
    by blast
  show "count_mails (snd (Threads_append e (appends items Threads)))
        = count_mails (appends items Threads)"
    by (simp only: duplicate_append [OF x] snd_conv)
qed

theorem threads_dedup_invariant_witness:
  "count_mails (appends [msg1, msg4, msg2] Threads) = 3 \<and>
   count_threads (appends [msg1, msg4, msg2] Threads) = 2 \<and>
   count_mails (snd (Threads_append (msg3 ''carol'') (appends [msg1, msg4, msg2] Threads))) = 3"
proof -
  have hyp: "\<exists>x \<in> set [msg1, msg4, msg2].
      mail_subject x = mail_subject (msg3 ''carol'') \<and> mail_url x = mail_url (msg3 ''carol'')"
    by (simp add: msg1_def msg3_def Mail_def)
  have same: "count_mails (snd (Threads_append (msg3 ''carol'') (appends [msg1, msg4, msg2] Threads)))
      = count_mails (appends [msg1, msg4, msg2] Threads)"
    by (rule threads_dedup_invariant [THEN conjunct2, THEN conjunct2, THEN mp, OF hyp])
  have cnt: "count_mails (appends [msg1, msg4, msg2] Threads) = 3"
    by (simp add: scenario_defs count_mails_def)
  have thr: "count_threads (appends [msg1, msg4, msg2] Threads) = 2"
    by (simp add: scenario_defs count_threads_def)
  show ?thesis
    by (simp only: same cnt thr)
qed

subsection \<open>The end-to-end scenario\<close>

text \<open>
  C1, as the code has it. After the first two mails of the scenario and a third mail with
  the first one's raw subject and url and any author, \<open>count_threads\<close> is 2,
  \<open>count_mails\<close> is 2 and the third append returns false. The sanitizer removes the
  bracketed tag only, so \<open>Re: Build broke\<close> is a subject of its own next to
  \<open>Build broke\<close>.
\<close>

theorem end_to_end_scenario:
  "count_threads (snd (Threads_append (msg3 a) (appends [msg1, msg2] Threads))) = 2 \<and>
   count_mails (snd (Threads_append (msg3 a) (appends [msg1, msg2] Threads))) = 2 \<and>
   \<not> fst (Threads_append (msg3 a) (appends [msg1, msg2] Threads))"
  unfolding scenario_third unfolding scenario_state
  by (simp add: count_threads_def count_mails_def)

text \<open>
  C1 as the specification states it, with one thread after the three appends, is false:
  there are two threads. It is false as well when the third mail carries the second mail's
  subject, since then the third append succeeds.
\<close>

theorem end_to_end_scenario_counterexample:
  "\<not> (count_threads (snd (Threads_append (msg3 ''carol'') (appends [msg1, msg2] Threads))) = 1 \<and>
      count_mails (snd (Threads_append (msg3 ''carol'') (appends [msg1, msg2] Threads))) = 2 \<and>
      \<not> fst (Threads_append (msg3 ''carol'') (appends [msg1, msg2] Threads))) \<and>
   count_threads (snd (Threads_append (msg3 ''carol'') (appends [msg1, msg2] Threads))) = 2 \<and>
   \<not> (count_threads (snd (Threads_append (Mail ''Re: Build broke'' ''carol'' ''http://list/msg/1'')
          (appends [msg1, msg2] Threads))) = 1 \<and>
      count_mails (snd (Threads_append (Mail ''Re: Build broke'' ''carol'' ''http://list/msg/1'')
          (appends [msg1, msg2] Threads))) = 2 \<and>
      \<not> fst (Threads_append (Mail ''Re: Build broke'' ''carol'' ''http://list/msg/1'')
          (appends [msg1, msg2] Threads)))"
proof (intro conjI)
  show "\<not> (count_threads (snd (Threads_append (msg3 ''carol'') (appends [msg1, msg2] Threads))) = 1 \<and>
      count_mails (snd (Threads_append (msg3 ''carol'') (appends [msg1, msg2] Threads))) = 2 \<and>
      \<not> fst (Threads_append (msg3 ''carol'') (appends [msg1, msg2] Threads)))"
    unfolding scenario_third unfolding scenario_state
    by (simp add: count_threads_def)
  show "count_threads (snd (Threads_append (msg3 ''carol'') (appends [msg1, msg2] Threads))) = 2"
    unfolding scenario_third unfolding scenario_state
    by (simp add: count_threads_def)
  show "\<not> (count_threads (snd (Threads_append (Mail ''Re: Build broke'' ''carol'' ''http://list/msg/1'')
          (appends [msg1, msg2] Threads))) = 1 \<and>
      count_mails (snd (Threads_append (Mail ''Re: Build broke'' ''carol'' ''http://list/msg/1'')
          (appends [msg1, msg2] Threads))) = 2 \<and>
      \<not> fst (Threads_append (Mail ''Re: Build broke'' ''carol'' ''http://list/msg/1'')
          (appends [msg1, msg2] Threads)))"
    unfolding scenario_state
    by (simp add: Mail_def sanitize_subject_def Threads_append_def Mail_eq_def count_threads_def)
qed

subsection \<open>The order of the text rendering\<close>

text \<open>
  C7. \<open>Threads.__str__\<close> writes one block per subject, the subjects from the most
  recently created to the first, and in each block the mails from the most recently appended
  to the first: the block of the last key, with its last mail on the first line under the
  header, comes before everything else. After appending \<open>A\<close>, \<open>B\<close>, \<open>C\<close> with one
  subject and three urls to a fresh collection the text is the header, then the line of
  \<open>C\<close>, of \<open>B\<close>, of \<open>A\<close>, then the blank line.
\<close>

theorem Threads_str_reverse_order:
  "Threads_str t =
     concat (map (\<lambda>(k, v). k @ '':'' @ NL @ concat (map mail_line (rev v)) @ NL) (rev (thread t))) \<and>
   Threads_str (t\<lparr>thread := d @ [(k, v @ [el])]\<rparr>) =
     k @ '':'' @ NL @ mail_line el @ concat (map mail_line (rev v)) @ NL
       @ Threads_str (t\<lparr>thread := d\<rparr>) \<and>
   (mail_subject B = mail_subject A \<and> mail_subject C = mail_subject A \<and>
    distinct [mail_url A, mail_url B, mail_url C] \<longrightarrow>
      Threads_str (appends [A, B, C] Threads) =
        mail_subject A @ '':'' @ NL @ mail_line C @ mail_line B @ mail_line A @ NL)"
proof (intro conjI impI)
  show "Threads_str t =
     concat (map (\<lambda>(k, v). k @ '':'' @ NL @ concat (map mail_line (rev v)) @ NL) (rev (thread t)))"
    by (rule Threads_str_blocks)
next
  show "Threads_str (t\<lparr>thread := d @ [(k, v @ [el])]\<rparr>) =
     k @ '':'' @ NL @ mail_line el @ concat (map mail_line (rev v)) @ NL
       @ Threads_str (t\<lparr>thread := d\<rparr>)"
    by (simp add: Threads_str_blocks)
next
  assume "mail_subject B = mail_subject A \<and> mail_subject C = mail_subject A \<and>
    distinct [mail_url A, mail_url B, mail_url C]"
  then have "appends [A, B, C] Threads = \<lparr>thread = [(mail_subject A, [A, B, C])]\<rparr>"
    by (intro three_appends) blast+
  then show "Threads_str (appends [A, B, C] Threads) =
        mail_subject A @ '':'' @ NL @ mail_line C @ mail_line B @ mail_line A @ NL"
    by (simp add: Threads_str_blocks)
qed

theorem Threads_str_reverse_order_witness:
  "Threads_str (appends [msg1, msg4, msg3 ''carol'', Mail ''[Dev] Build broke'' ''erin'' ''http://list/msg/5''] Threads) =
     ''Build broke:'' @ NL
     @ TAB @ ''erin - <http://list/msg/5>'' @ NL
     @ TAB @ ''dave - <http://list/msg/4>'' @ NL
     @ TAB @ ''alice - <http://list/msg/1>'' @ NL
     @ NL"
proof -
  have same: "appends [msg1, msg4, msg3 ''carol'', Mail ''[Dev] Build broke'' ''erin'' ''http://list/msg/5''] Threads
      = appends [msg1, msg4, Mail ''[Dev] Build broke'' ''erin'' ''http://list/msg/5''] Threads"
    by (simp add: scenario_defs)
  have hyp: "mail_subject msg4 = mail_subject msg1 \<and>
      mail_subject (Mail ''[Dev] Build broke'' ''erin'' ''http://list/msg/5'') = mail_subject msg1 \<and>
      distinct [mail_url msg1, mail_url msg4,
        mail_url (Mail ''[Dev] Build broke'' ''erin'' ''http://list/msg/5'')]"
    by (simp add: scenario_defs)
  note T = Threads_str_reverse_order [THEN conjunct2, THEN conjunct2, THEN mp, OF hyp]
  show ?thesis
    unfolding same T by (simp add: scenario_defs mail_line_def)
qed

subsection \<open>Escaping of the author\<close>

text \<open>
  C8. For every mail stored in a collection, \<open>Threads.html\<close> contains the mail's anchor
  line with the author passed through \<open>html.escape\<close> as link text, and
  \<open>Threads.__str__\<close> contains the mail's line with the author as it is. The escaped author
  has no \<open><\<close>; \<open>html.escape\<close> writes \<open>&lt;\<close> for \<open><\<close> and \<open>&amp;\<close> for \<open>&\<close>
  wherever they stand.
\<close>

theorem author_escaping:
  "(k, v) \<in> set (thread t) \<Longrightarrow> el \<in> set v \<Longrightarrow>
     sublist (''    <a href='' @ DQ @ mail_url el @ DQ @ ''>'' @ html_escape (mail_author el)
                @ ''</a>'' @ NL)
       (Threads_html emo cap t) \<and>
     sublist (TAB @ mail_author el @ '' - <'' @ mail_url el @ ''>'' @ NL) (Threads_str t) \<and>
     CHR ''<'' \<notin> set (html_escape (mail_author el)) \<and>
     html_escape (x @ ''<'' @ y) = html_escape x @ ''&lt;'' @ html_escape y \<and>
     html_escape (x @ ''&'' @ y) = html_escape x @ ''&amp;'' @ html_escape y"
proof (intro conjI)
  assume kv: "(k, v) \<in> set (thread t)" and el: "el \<in> set v"
  from kv have kv': "(k, v) \<in> set (rev (thread t))" by simp
  from el have el': "el \<in> set (rev v)" by simp
  have "sublist (mail_anchor el) (concat (map mail_anchor (rev v)))"
    using el' by (rule sublist_concat_map)
  then have "sublist (mail_anchor el)
      ((point_right emo @ '' <b>'' @ cap k @ ''</b>'' @ NL) @ concat (map mail_anchor (rev v)) @ [])"
    by (rule sublist_mid)
  then have "sublist (mail_anchor el)
      ((\<lambda>(k, v). point_right emo @ '' <b>'' @ cap k @ ''</b>'' @ NL
                    @ concat (map mail_anchor (rev v))) (k, v))"
    by simp
  moreover have "sublist ((\<lambda>(k, v). point_right emo @ '' <b>'' @ cap k @ ''</b>'' @ NL
                    @ concat (map mail_anchor (rev v))) (k, v)) (Threads_html emo cap t)"
    unfolding Threads_html_blocks using kv' by (rule sublist_concat_map)
  ultimately have "sublist (mail_anchor el) (Threads_html emo cap t)"
    by (rule sublist_order.order_trans)
  then show "sublist (''    <a href='' @ DQ @ mail_url el @ DQ @ ''>'' @ html_escape (mail_author el)
                @ ''</a>'' @ NL) (Threads_html emo cap t)"
    by (simp add: mail_anchor_def)
  have "sublist (mail_line el) (concat (map mail_line (rev v)))"
    using el' by (rule sublist_concat_map)
  then have "sublist (mail_line el) ((k @ '':'' @ NL) @ concat (map mail_line (rev v)) @ NL)"
    by (rule sublist_mid)
  then have "sublist (mail_line el)
      ((\<lambda>(k, v). k @ '':'' @ NL @ concat (map mail_line (rev v)) @ NL) (k, v))"
    by simp
  moreover have "sublist ((\<lambda>(k, v). k @ '':'' @ NL @ concat (map mail_line (rev v)) @ NL) (k, v))
      (Threads_str t)"
    unfolding Threads_str_blocks using kv' by (rule sublist_concat_map)
  ultimately have "sublist (mail_line el) (Threads_str t)"
    by (rule sublist_order.order_trans)
  then show "sublist (TAB @ mail_author el @ '' - <'' @ mail_url el @ ''>'' @ NL) (Threads_str t)"
    by (simp add: mail_line_def)
next
  show "CHR ''<'' \<notin> set (html_escape (mail_author el))"
    by (rule html_escape_no_lt)
next
  show "html_escape (x @ ''<'' @ y) = html_escape x @ ''&lt;'' @ html_escape y"
    by (simp add: html_escape_append html_escape_Cons html_escape_Nil escape_char_def)
next
  show "html_escape (x @ ''&'' @ y) = html_escape x @ ''&amp;'' @ html_escape y"
    by (simp add: html_escape_append html_escape_Cons html_escape_Nil escape_char_def)
qed

theorem author_escaping_witness:
  "Threads_html None id (appends [msg5] Threads) =
     ''- <b>Review</b>'' @ NL
     @ ''    <a href='' @ DQ @ ''http://list/msg/5'' @ DQ @ ''>R&amp;D &lt;rd@list&gt;</a>'' @ NL \<and>
   Threads_str (appends [msg5] Threads) =
     ''Review:'' @ NL @ TAB @ ''R&D <rd@list> - <http://list/msg/5>'' @ NL @ NL \<and>
   sublist (''    <a href='' @ DQ @ ''http://list/msg/5'' @ DQ @ ''>R&amp;D &lt;rd@list&gt;</a>'' @ NL)
     (Threads_html None id (appends [msg5] Threads)) \<and>
   sublist (TAB @ ''R&D <rd@list> - <http://list/msg/5>'' @ NL) (Threads_str (appends [msg5] Threads))"
proof -
  have st: "appends [msg5] Threads = \<lparr>thread = [(''Review'', [msg5])]\<rparr>"
    by (simp add: msg5_def scenario_defs)
  have h1: "(''Review'', [msg5]) \<in> set (thread (appends [msg5] Threads))"
    by (simp add: st)
  have h2: "msg5 \<in> set [msg5]"
    by simp
  have esc: "html_escape (mail_author msg5) = ''R&amp;D &lt;rd@list&gt;''"
    by (simp add: msg5_def Mail_def html_escape_def)
  note T = author_escaping [OF h1 h2, of None id]
  have a: "sublist (''    <a href='' @ DQ @ ''http://list/msg/5'' @ DQ @ ''>R&amp;D &lt;rd@list&gt;</a>'' @ NL)
     (Threads_html None id (appends [msg5] Threads))"
    using T [THEN conjunct1] by (simp add: esc) (simp add: msg5_def Mail_def)
  have b: "sublist (TAB @ ''R&D <rd@list> - <http://list/msg/5>'' @ NL) (Threads_str (appends [msg5] Threads))"
    using T [THEN conjunct2, THEN conjunct1] by (simp add: msg5_def Mail_def)
  have c: "Threads_html None id (appends [msg5] Threads) =
     ''- <b>Review</b>'' @ NL
     @ ''    <a href='' @ DQ @ ''http://list/msg/5'' @ DQ @ ''>R&amp;D &lt;rd@list&gt;</a>'' @ NL"
    unfolding st by (simp add: Threads_html_def point_right_def mail_anchor_def esc)
      (simp add: msg5_def Mail_def)
  have d: "Threads_str (appends [msg5] Threads) =
     ''Review:'' @ NL @ TAB @ ''R&D <rd@list> - <http://list/msg/5>'' @ NL @ NL"
    unfolding st by (simp add: Threads_str_def mail_line_def msg5_def Mail_def)
  from a b c d show ?thesis
    by (intro conjI)
qed

subsection \<open>Comments of a post\<close>




subsection \<open>The order of the HTML renderings of Subreddit and Feed\<close>

text \<open>
  C3, as the code has it. \<open>Subreddit.html\<close> and \<open>Feed.html\<close> join the lines of the
  elements in insertion order: the line of the first-appended element is first and the
  line of the most recently appended element is last.
\<close>

theorem html_insertion_order:
  "Subreddit_html emo (Subreddit_appends ps (Subreddit name)) =
     Inr (joined NL (map (\<lambda>el. point_right emo @ '' '' @ Post_html el) ps)) \<and>
   Subreddit_html emo (Subreddit_appends (p # ps @ [q]) (Subreddit name)) =
     Inr ((point_right emo @ '' '' @ Post_html p) @ NL
          @ joined NL (map (\<lambda>el. point_right emo @ '' '' @ Post_html el) (ps @ [q]))) \<and>
   Subreddit_html emo (Subreddit_appends (p # ps @ [q]) (Subreddit name)) =
     Inr (joined NL (map (\<lambda>el. point_right emo @ '' '' @ Post_html el) (p # ps))
          @ NL @ (point_right emo @ '' '' @ Post_html q)) \<and>
   Feed_html emo strftime (Feed_appends as (Feed title)) =
     Inr (joined NL (map (\<lambda>el. point_right emo @ '' '' @ Article_html strftime el) as)) \<and>
   Feed_html emo strftime (Feed_appends (a # as @ [b]) (Feed title)) =
     Inr ((point_right emo @ '' '' @ Article_html strftime a) @ NL
          @ joined NL (map (\<lambda>el. point_right emo @ '' '' @ Article_html strftime el) (as @ [b]))) \<and>
   Feed_html emo strftime (Feed_appends (a # as @ [b]) (Feed title)) =
     Inr (joined NL (map (\<lambda>el. point_right emo @ '' '' @ Article_html strftime el) (a # as))
          @ NL @ (point_right emo @ '' '' @ Article_html strftime b))"
proof -
  have sub: "Subreddit_html emo (Subreddit_appends xs (Subreddit name)) =
     Inr (joined NL (map (\<lambda>el. point_right emo @ '' '' @ Post_html el) xs))" for xs
    by (simp add: Subreddit_html_def Subreddit_appends_posts Subreddit_def str_join_map)
  have fd: "Feed_html emo strftime (Feed_appends xs (Feed title)) =
     Inr (joined NL (map (\<lambda>el. point_right emo @ '' '' @ Article_html strftime el) xs))" for xs
    by (simp add: Feed_html_def Feed_appends_articles Feed_def str_join_map)
  have first: "joined sep (map f (x # xs @ [y])) = f x @ sep @ joined sep (map f (xs @ [y]))"
    for sep and f :: "'a \<Rightarrow> string" and x xs y
    by (simp add: joined_Cons)
  have last: "joined sep (map f (x # xs @ [y])) = joined sep (map f (x # xs)) @ sep @ f y"
    for sep and f :: "'a \<Rightarrow> string" and x xs y
    using joined_snoc [of sep "map f (x # xs)" "f y"] by simp
  show ?thesis
    apply (intro conjI)
         apply (rule sub)
        apply (simp only: sub first append_assoc)
       apply (simp only: sub last append_assoc)
      apply (rule fd)
     apply (simp only: fd first append_assoc)
    apply (simp only: fd last append_assoc)
    done
qed

text \<open>
  C3 as stated, with the most recently appended element first, is false for two posts and
  for two articles.
\<close>

theorem html_insertion_order_counterexample:
  "Subreddit_html None (Subreddit_appends [post1, post2] (Subreddit ''r'')) =
     Inr (''- <a href='' @ DQ @ ''http://r/1'' @ DQ @ ''>first</a>'' @ NL
          @ ''- <a href='' @ DQ @ ''http://r/2'' @ DQ @ ''>second</a> (<a href='' @ DQ
          @ ''http://r/2'' @ DQ @ ''>comments</a>)'') \<and>
   Subreddit_html None (Subreddit_appends [post1, post2] (Subreddit ''r'')) \<noteq>
     Inr (joined NL (map (\<lambda>el. ''- '' @ Post_html el) (rev [post1, post2]))) \<and>
   Feed_html None strftime_digits (Feed_appends [article1, article2] (Feed ''f'')) =
     Inr (''- <a href='' @ DQ @ ''http://f/1'' @ DQ @ ''>a<b&c</a>'' @ NL
          @ ''    '' @ watch @ '' 09/04/17 07:05'' @ NL
          @ ''- <a href='' @ DQ @ ''http://f/2'' @ DQ @ ''>second</a>'' @ NL
          @ ''    '' @ watch @ '' 09/04/17 07:05'') \<and>
   Feed_html None strftime_digits (Feed_appends [article1, article2] (Feed ''f'')) \<noteq>
     Inr (joined NL (map (\<lambda>el. ''- '' @ Article_html strftime_digits el) (rev [article1, article2])))"
  by (simp add: render_defs post1_def post2_def article1_def article2_def date1_def directive_def
      two_digits_def)

subsection \<open>Conversions that raise\<close>

text \<open>
  C9 fails on the code. \<open>repr\<close> of a post constructed with \<open>is_self\<close> true raises
  \<open>TypeError\<close>, since \<open>join\<close> meets \<open>None\<close>; \<open>str\<close> of a subreddit and of a feed raise
  \<open>TypeError\<close> after any append, since \<open>join\<close> meets a post or an article. The empty
  subreddit and a post with comments convert without error.
\<close>

theorem conversions_raise:
  "Post_repr (Post title url True c) = Inl TypeError \<and>
   Subreddit_str (Subreddit_append p s) = Inl TypeError \<and>
   Feed_str (Feed_append a f) = Inl TypeError \<and>
   Subreddit_str (Subreddit name) = Inr [] \<and>
   Post_repr (Post ''t'' ''http://u'' False None) = Inr ''Post(t, http://u, http://u)''"
proof (intro conjI)
  show "Post_repr (Post title url True c) = Inl TypeError"
    by (simp add: Post_repr_def comments_def Post_def)
  show "Subreddit_str (Subreddit_append p s) = Inl TypeError"
    using str_join_non_str [of "PyPost p" NL "map PyPost (subreddit s)" "[]"]
    by (simp add: Subreddit_str_def Subreddit_append_def)
  show "Feed_str (Feed_append a f) = Inl TypeError"
    using str_join_non_str [of "PyArticle a" NL "map PyArticle (feed f)" "[]"]
    by (simp add: Feed_str_def Feed_append_def)
  show "Subreddit_str (Subreddit name) = Inr []"
    by (simp add: Subreddit_str_def Subreddit_def)
  show "Post_repr (Post ''t'' ''http://u'' False None) = Inr ''Post(t, http://u, http://u)''"
    by (simp add: Post_repr_def comments_def Post_def)
qed

subsection \<open>The title of an article\<close>

text \<open>
  C10. \<open>Article.html\<close> puts the title as it is between the opening and closing anchor
  tags, and \<open>Feed.html\<close> contains that anchor for each of its articles; \<open>Post.html\<close>
  puts \<open>html.escape\<close> of the title there, which has no \<open><\<close> and has \<open>&lt;\<close> and
  \<open>&amp;\<close> for \<open><\<close> and \<open>&\<close>.
\<close>

theorem article_title_verbatim:
  "Article_html strftime (Article title description url date) =
     ''<a href='' @ DQ @ url @ DQ @ ''>'' @ title @ ''</a>'' @ NL @ ''    '' @ watch @ '' ''
       @ strftime ''%d/%m/%y %H:%M'' date \<and>
   (a \<in> set (feed f) \<longrightarrow>
      (\<exists>out. Feed_html emo strftime f = Inr out \<and>
         sublist (''<a href='' @ DQ @ article_url a @ DQ @ ''>'' @ article_title a @ ''</a>'') out)) \<and>
   sublist (''<a href='' @ DQ @ post_url p @ DQ @ ''>'' @ html_escape (post_title p) @ ''</a>'')
     (Post_html p) \<and>
   CHR ''<'' \<notin> set (html_escape (post_title p)) \<and>
   html_escape (x @ ''<'' @ y) = html_escape x @ ''&lt;'' @ html_escape y \<and>
   html_escape (x @ ''&'' @ y) = html_escape x @ ''&amp;'' @ html_escape y"
proof (intro conjI impI)
  show "Article_html strftime (Article title description url date) =
     ''<a href='' @ DQ @ url @ DQ @ ''>'' @ title @ ''</a>'' @ NL @ ''    '' @ watch @ '' ''
       @ strftime ''%d/%m/%y %H:%M'' date"
    by (simp add: Article_html_def Article_def)
next
  assume a: "a \<in> set (feed f)"
  let ?line = "\<lambda>el. point_right emo @ '' '' @ Article_html strftime el"
  have out: "Feed_html emo strftime f = Inr (joined NL (map ?line (feed f)))"
    by (simp add: Feed_html_def str_join_map)
  have "?line a \<in> set (map ?line (feed f))"
    using a by (rule imageI [of a "set (feed f)" ?line, unfolded set_map [symmetric]])
  then have "sublist (?line a) (joined NL (map ?line (feed f)))"
    by (rule sublist_joined)
  moreover have "sublist (''<a href='' @ DQ @ article_url a @ DQ @ ''>'' @ article_title a @ ''</a>'')
      (?line a)"
  proof -
    have "sublist (''<a href='' @ DQ @ article_url a @ DQ @ ''>'' @ article_title a @ ''</a>'')
      ((point_right emo @ '' '') @ (''<a href='' @ DQ @ article_url a @ DQ @ ''>'' @ article_title a @ ''</a>'')
        @ (NL @ ''    '' @ watch @ '' '' @ strftime ''%d/%m/%y %H:%M'' (article_date a)))"
      by (rule sublist_appendI)
    then show ?thesis
      by (simp add: Article_html_def)
  qed
  ultimately have "sublist (''<a href='' @ DQ @ article_url a @ DQ @ ''>'' @ article_title a @ ''</a>'')
      (joined NL (map ?line (feed f)))"
    by (rule sublist_order.order_trans [rotated])
  with out show "\<exists>out. Feed_html emo strftime f = Inr out \<and>
         sublist (''<a href='' @ DQ @ article_url a @ DQ @ ''>'' @ article_title a @ ''</a>'') out"
    by blast
next
  have "sublist (''<a href='' @ DQ @ post_url p @ DQ @ ''>'' @ html_escape (post_title p) @ ''</a>'')
      ([] @ (''<a href='' @ DQ @ post_url p @ DQ @ ''>'' @ html_escape (post_title p) @ ''</a>'') @ r)" for r
    by (rule sublist_appendI)
  from this [of "[]"] this [of "'' (<a href='' @ DQ @ the (comments p) @ DQ @ ''>comments</a>)''"]
  show "sublist (''<a href='' @ DQ @ post_url p @ DQ @ ''>'' @ html_escape (post_title p) @ ''</a>'')
     (Post_html p)"
    by (auto simp: Post_html_def Let_def split: option.splits)
next
  show "CHR ''<'' \<notin> set (html_escape (post_title p))"
    by (rule html_escape_no_lt)
next
  show "html_escape (x @ ''<'' @ y) = html_escape x @ ''&lt;'' @ html_escape y"
    by (simp add: html_escape_append html_escape_Cons html_escape_Nil escape_char_def)
next
  show "html_escape (x @ ''&'' @ y) = html_escape x @ ''&amp;'' @ html_escape y"
    by (simp add: html_escape_append html_escape_Cons html_escape_Nil escape_char_def)
qed

theorem article_title_verbatim_witness:
  "Feed_html None strftime_digits (Feed_appends [article1] (Feed ''f'')) =
     Inr (''- <a href='' @ DQ @ ''http://f/1'' @ DQ @ ''>a<b&c</a>'' @ NL
          @ ''    '' @ watch @ '' 09/04/17 07:05'') \<and>
   Post_html (Post ''a<b&c'' ''http://r/3'' True None) =
     ''<a href='' @ DQ @ ''http://r/3'' @ DQ @ ''>a&lt;b&amp;c</a>'' \<and>
   (\<exists>out. Feed_html None strftime_digits (Feed_appends [article1] (Feed ''f'')) = Inr out \<and>
      sublist (''<a href='' @ DQ @ ''http://f/1'' @ DQ @ ''>a<b&c</a>'') out)"
proof -
  have mem: "article1 \<in> set (feed (Feed_appends [article1] (Feed ''f'')))"
    by (simp add: Feed_appends_def Feed_append_def Feed_def)
  note T = article_title_verbatim [THEN conjunct2, THEN conjunct1, THEN mp, OF mem,
      of None strftime_digits]
  have a: "Feed_html None strftime_digits (Feed_appends [article1] (Feed ''f'')) =
     Inr (''- <a href='' @ DQ @ ''http://f/1'' @ DQ @ ''>a<b&c</a>'' @ NL
          @ ''    '' @ watch @ '' 09/04/17 07:05'')"
    by (simp add: render_defs article1_def date1_def directive_def two_digits_def)
  have b: "Post_html (Post ''a<b&c'' ''http://r/3'' True None) =
     ''<a href='' @ DQ @ ''http://r/3'' @ DQ @ ''>a&lt;b&amp;c</a>''"
    by (simp add: render_defs)
  have c: "\<exists>out. Feed_html None strftime_digits (Feed_appends [article1] (Feed ''f'')) = Inr out \<and>
      sublist (''<a href='' @ DQ @ ''http://f/1'' @ DQ @ ''>a<b&c</a>'') out"
    using T by (simp add: article1_def Article_def)
  from a b c show ?thesis
    by (intro conjI)
qed

end
